theory Spec2Isabelle
  imports Main "HOL-Library.Multiset" "HOL-Library.Char_ord" "HOL-Library.List_Lexorder"
begin

section \<open>Decoded JSON documents and Python's failures\<close>

text \<open>
  The pipeline of \<^verbatim>\<open>main.py\<close> works on what \<^verbatim>\<open>json.loads\<close> returns: \<^verbatim>\<open>None\<close>,
  booleans, numbers, strings, lists and dictionaries. A Python dictionary keeps its
  keys in insertion order, so an object is an association list; a dictionary has no
  key twice (\<open>wf_dict\<close> below). Numbers are Python's unbounded integers; a number with
  a fraction or an exponent, which \<^verbatim>\<open>json.loads\<close> reads as a floating-point number, has
  no value here. Strings are lists of \<^typ>\<open>char\<close>, the code points 0 to 255.
\<close>

datatype json =
    JNull
  | JBool bool
  | JInt int
  | JStr string
  | JArr "json list"
  | JObj "(string \<times> json) list"

text \<open>
  The exceptions the modelled statements can raise. \<open>SchemaFormatError\<close> is the error
  kind of the specification; \<^verbatim>\<open>main.py\<close> defines no such class and no definition
  below returns it.
\<close>

datatype exn = AttributeError | TypeError | KeyError | SchemaFormatError

type_synonym dict = "(string \<times> json) list"

definition wf_dict :: "dict \<Rightarrow> bool" where
  "wf_dict kvs = distinct (map fst kvs)"

text \<open>\<^verbatim>\<open>d.get(k)\<close>: only a dictionary has the method; a missing key gives \<^verbatim>\<open>None\<close>.\<close>

definition py_get :: "json \<Rightarrow> string \<Rightarrow> exn + json" where
  "py_get d k =
     (case d of
        JObj kvs \<Rightarrow> (case map_of kvs k of None \<Rightarrow> Inr JNull | Some v \<Rightarrow> Inr v)
      | _ \<Rightarrow> Inl AttributeError)"

text \<open>\<^verbatim>\<open>d.keys()\<close>: only a dictionary has the method.\<close>

definition py_keys :: "json \<Rightarrow> exn + string list" where
  "py_keys d = (case d of JObj kvs \<Rightarrow> Inr (map fst kvs) | _ \<Rightarrow> Inl AttributeError)"

section \<open>Schema discovery: \<^verbatim>\<open>index_field_names\<close>\<close>

text \<open>
  \<^verbatim>\<open>for sf in mappings.get(f).get('properties').keys(): fieldlist.append(f + '.' + sf)\<close>
\<close>

fun subfield_loop :: "string \<Rightarrow> string list \<Rightarrow> string list \<Rightarrow> string list" where
  "subfield_loop f [] fieldlist = fieldlist"
| "subfield_loop f (sf # sfs) fieldlist = subfield_loop f sfs (fieldlist @ [f @ ''.'' @ sf])"

text \<open>
  The body of \<^verbatim>\<open>for f in mappings\<close>, for the keys \<open>fs\<close> still to visit of the
  dictionary \<open>mappings\<close>.
\<close>

fun field_loop :: "json \<Rightarrow> string list \<Rightarrow> string list \<Rightarrow> exn + string list" where
  "field_loop mappings [] fieldlist = Inr fieldlist"
| "field_loop mappings (f # fs) fieldlist =
     (case py_get mappings f of
        Inl e \<Rightarrow> Inl e
      | Inr d \<Rightarrow>
          (case py_keys d of
             Inl e \<Rightarrow> Inl e
           | Inr ks \<Rightarrow>
               if ''properties'' \<in> set ks then
                 (case py_get d ''properties'' of
                    Inl e \<Rightarrow> Inl e
                  | Inr p \<Rightarrow>
                      (case py_keys p of
                         Inl e \<Rightarrow> Inl e
                       | Inr sfs \<Rightarrow> field_loop mappings fs (subfield_loop f sfs fieldlist)))
               else field_loop mappings fs (fieldlist @ [f])))"

text \<open>
  \<^verbatim>\<open>for f in mappings: ...\<close> for whatever \<open>mappings\<close> is. A dictionary is iterated
  by its keys. \<^verbatim>\<open>None\<close>, a number and a boolean are not iterable (TypeError). A list
  or a string is iterable, and the first thing the body does is \<^verbatim>\<open>mappings.get(f)\<close>,
  which neither has (AttributeError); an empty one never runs the body.
\<close>

definition fields_of_mappings :: "json \<Rightarrow> string list \<Rightarrow> exn + string list" where
  "fields_of_mappings mappings fieldlist =
     (case mappings of
        JObj kvs \<Rightarrow> field_loop mappings (map fst kvs) fieldlist
      | JArr xs \<Rightarrow> (if xs = [] then Inr fieldlist else Inl AttributeError)
      | JStr s \<Rightarrow> (if s = [] then Inr fieldlist else Inl AttributeError)
      | _ \<Rightarrow> Inl TypeError)"

text \<open>
  \<^verbatim>\<open>for key in list(requestjson.keys()):\<close>
  \<^verbatim>\<open>    mappings = requestjson.get(key).get('mappings').get('properties')\<close>
\<close>

fun index_loop :: "json \<Rightarrow> string list \<Rightarrow> string list \<Rightarrow> exn + string list" where
  "index_loop requestjson [] fieldlist = Inr fieldlist"
| "index_loop requestjson (key # keys) fieldlist =
     (case py_get requestjson key of
        Inl e \<Rightarrow> Inl e
      | Inr doc \<Rightarrow>
          (case py_get doc ''mappings'' of
             Inl e \<Rightarrow> Inl e
           | Inr m \<Rightarrow>
               (case py_get m ''properties'' of
                  Inl e \<Rightarrow> Inl e
                | Inr mappings \<Rightarrow>
                    (case fields_of_mappings mappings fieldlist of
                       Inl e \<Rightarrow> Inl e
                     | Inr fieldlist' \<Rightarrow> index_loop requestjson keys fieldlist'))))"

text \<open>
  \<^verbatim>\<open>index_field_names\<close> from the decoded response \<open>requestjson\<close> on (the HTTP
  request that fetches it is the transport's).
\<close>

definition index_field_names :: "json \<Rightarrow> exn + string list" where
  "index_field_names requestjson =
     (case py_keys requestjson of
        Inl e \<Rightarrow> Inl e
      | Inr keys \<Rightarrow> index_loop requestjson keys [])"


section \<open>The search request: \<^verbatim>\<open>request_builder\<close>\<close>

text \<open>
  \<^verbatim>\<open>fields.split(',')\<close>: the pieces between the commas, empty pieces included; a
  string without a comma (the empty string too) is its own single piece.
\<close>

fun split_loop :: "char \<Rightarrow> string \<Rightarrow> string \<Rightarrow> string list" where
  "split_loop sep [] piece = [piece]"
| "split_loop sep (c # cs) piece =
     (if c = sep then piece # split_loop sep cs [] else split_loop sep cs (piece @ [c]))"

definition py_split :: "string \<Rightarrow> char \<Rightarrow> string list" where
  "py_split s sep = split_loop sep s []"

text \<open>\<^verbatim>\<open>sep.join(pieces)\<close>, to say what splitting returns.\<close>

fun py_join :: "char \<Rightarrow> string list \<Rightarrow> string" where
  "py_join sep [] = []"
| "py_join sep [p] = p"
| "py_join sep (p # q # ps) = p @ sep # py_join sep (q # ps)"

text \<open>
  \<^verbatim>\<open>d[k] = v\<close> on an insertion-ordered dictionary: a key already there keeps its
  place and takes the new value, a new key goes last.
\<close>

fun dict_set :: "dict \<Rightarrow> string \<Rightarrow> json \<Rightarrow> dict" where
  "dict_set [] k v = [(k, v)]"
| "dict_set ((k', v') # d) k v =
     (if k' = k then (k, v) # d else (k', v') # dict_set d k v)"

text \<open>The dictionary \<open>body\<close> that \<^verbatim>\<open>request_builder\<close> builds, statement by statement.\<close>

definition request_body :: "string \<Rightarrow> string \<Rightarrow> json" where
  "request_body search_term fields =
     (let body = [];
          query = [];
          query = dict_set query ''multi_match'' (JObj [(''query'', JStr search_term)]);
          body = dict_set body ''_source'' (JArr (map JStr (py_split fields (CHR '',''))));
          body = dict_set body ''size'' (JInt 100);
          body = dict_set body ''query'' (JObj query)
      in JObj body)"

subsection \<open>\<^verbatim>\<open>json.dumps\<close> with its default arguments\<close>

text \<open>
  Modelled from the spec: \<^verbatim>\<open>json.dumps\<close> is Python's standard library, whose code is
  not in the repository. The spec has the request serialized as JSON with the shape the
  builder gives it; the definitions below are the encoder's output for the default
  arguments that \<^verbatim>\<open>request_builder\<close> calls it with.
\<close>

definition dquote :: char where
  "dquote = CHR 0x22"

definition backslash :: char where
  "backslash = CHR 0x5C"

text \<open>The digit of a number below 16; below 10 it is the decimal digit.\<close>

definition hexdigit :: "nat \<Rightarrow> char" where
  "hexdigit n = ''0123456789abcdef'' ! n"

text \<open>
  \<^verbatim>\<open>ensure_ascii\<close> is on: the quote, the backslash and every character outside
  \<^verbatim>\<open>' '..'~'\<close> are escaped, the usual control characters by their letter and the
  others as \<^verbatim>\<open>\u00xx\<close>.
\<close>

definition escape_char :: "char \<Rightarrow> string" where
  "escape_char c =
     (if c = dquote then [backslash, dquote]
      else if c = backslash then [backslash, backslash]
      else if c = CHR 0x0A then [backslash, CHR ''n'']
      else if c = CHR 0x0D then [backslash, CHR ''r'']
      else if c = CHR 0x09 then [backslash, CHR ''t'']
      else if c = CHR 0x08 then [backslash, CHR ''b'']
      else if c = CHR 0x0C then [backslash, CHR ''f'']
      else if (of_char c :: nat) < 0x20 \<or> 0x7E < (of_char c :: nat) then
        [backslash, CHR ''u'', CHR ''0'', CHR ''0'',
         hexdigit (of_char c div 16), hexdigit (of_char c mod 16)]
      else [c])"

definition encode_string :: "string \<Rightarrow> string" where
  "encode_string s = dquote # concat (map escape_char s) @ [dquote]"

function digits_of :: "nat \<Rightarrow> string" where
  "digits_of n =
     (if n < 10 then [hexdigit n] else digits_of (n div 10) @ [hexdigit (n mod 10)])"
  by pat_completeness auto
termination
  by (relation "measure id") auto

definition repr_int :: "int \<Rightarrow> string" where
  "repr_int i = (if i < 0 then CHR ''-'' # digits_of (nat (- i)) else digits_of (nat i))"

text \<open>The separators are \<^verbatim>\<open>', '\<close> between items and \<^verbatim>\<open>': '\<close> after a key.\<close>

fun json_dumps :: "json \<Rightarrow> string"
  and dumps_items :: "json list \<Rightarrow> string"
  and dumps_members :: "(string \<times> json) list \<Rightarrow> string"
where
  "json_dumps JNull = ''null''"
| "json_dumps (JBool b) = (if b then ''true'' else ''false'')"
| "json_dumps (JInt i) = repr_int i"
| "json_dumps (JStr s) = encode_string s"
| "json_dumps (JArr xs) = ''['' @ dumps_items xs @ '']''"
| "json_dumps (JObj kvs) = ''{'' @ dumps_members kvs @ ''}''"
| "dumps_items [] = []"
| "dumps_items [x] = json_dumps x"
| "dumps_items (x # y # ys) = json_dumps x @ '', '' @ dumps_items (y # ys)"
| "dumps_members [] = []"
| "dumps_members [(k, v)] = encode_string k @ '': '' @ json_dumps v"
| "dumps_members ((k, v) # m # ms) =
     encode_string k @ '': '' @ json_dumps v @ '', '' @ dumps_members (m # ms)"

definition request_builder :: "string \<Rightarrow> string \<Rightarrow> string" where
  "request_builder search_term fields = json_dumps (request_body search_term fields)"

subsection \<open>\<^verbatim>\<open>json.loads\<close>, to read the request back\<close>

text \<open>
  Modelled from the spec: \<^verbatim>\<open>json.loads\<close> is Python's standard library, whose code is
  not in the repository; it is what the spec's "deserializes" means. This is the decoder
  for the documents of type \<^typ>\<open>json\<close>: \<^verbatim>\<open>None\<close> stands for a \<^verbatim>\<open>JSONDecodeError\<close>, and
  for a document this model has no value for (a number with a fraction or an exponent,
  \<^verbatim>\<open>NaN\<close> and \<^verbatim>\<open>Infinity\<close>, a character beyond code point 255).
\<close>

definition is_ws :: "char \<Rightarrow> bool" where
  "is_ws c = (c = CHR '' '' \<or> c = CHR 0x09 \<or> c = CHR 0x0A \<or> c = CHR 0x0D)"

fun skip_ws :: "string \<Rightarrow> string" where
  "skip_ws [] = []"
| "skip_ws (c # cs) = (if is_ws c then skip_ws cs else c # cs)"

definition hexval :: "char \<Rightarrow> nat option" where
  "hexval c =
     (let n = (of_char c :: nat) in
      if 0x30 \<le> n \<and> n \<le> 0x39 then Some (n - 0x30)
      else if 0x61 \<le> n \<and> n \<le> 0x66 then Some (n - 0x61 + 10)
      else if 0x41 \<le> n \<and> n \<le> 0x46 then Some (n - 0x41 + 10)
      else None)"

definition hex4 :: "char \<Rightarrow> char \<Rightarrow> char \<Rightarrow> char \<Rightarrow> nat option" where
  "hex4 a b c d =
     (case (hexval a, hexval b, hexval c, hexval d) of
        (Some x, Some y, Some z, Some w) \<Rightarrow> Some (((x * 16 + y) * 16 + z) * 16 + w)
      | _ \<Rightarrow> None)"

definition unescape :: "char \<Rightarrow> char option" where
  "unescape e =
     (if e = dquote then Some dquote
      else if e = backslash then Some backslash
      else if e = CHR ''/'' then Some (CHR ''/'')
      else if e = CHR ''b'' then Some (CHR 0x08)
      else if e = CHR ''f'' then Some (CHR 0x0C)
      else if e = CHR ''n'' then Some (CHR 0x0A)
      else if e = CHR ''r'' then Some (CHR 0x0D)
      else if e = CHR ''t'' then Some (CHR 0x09)
      else None)"

text \<open>
  The text of a string after its opening quote: the decoded string and what follows the
  closing quote. An unescaped control character is refused (\<^verbatim>\<open>strict\<close> is on).
\<close>

fun scanstring :: "string \<Rightarrow> (string \<times> string) option" where
  "scanstring [] = None"
| "scanstring (c # cs) =
     (if c = dquote then Some ([], cs)
      else if c = backslash then
        (case cs of
           [] \<Rightarrow> None
         | e # cs' \<Rightarrow>
             if e = CHR ''u'' then
               (case cs' of
                  h1 # h2 # h3 # h4 # rest \<Rightarrow>
                    (case hex4 h1 h2 h3 h4 of
                       None \<Rightarrow> None
                     | Some n \<Rightarrow>
                         if n < 256 then
                           (case scanstring rest of
                              None \<Rightarrow> None
                            | Some (s, r) \<Rightarrow> Some (char_of n # s, r))
                         else None)
                | _ \<Rightarrow> None)
             else
               (case unescape e of
                  None \<Rightarrow> None
                | Some ch \<Rightarrow>
                    (case scanstring cs' of
                       None \<Rightarrow> None
                     | Some (s, r) \<Rightarrow> Some (ch # s, r))))
      else if (of_char c :: nat) < 0x20 then None
      else
        (case scanstring cs of
           None \<Rightarrow> None
         | Some (s, r) \<Rightarrow> Some (c # s, r)))"

definition is_digit :: "char \<Rightarrow> bool" where
  "is_digit c = (0x30 \<le> (of_char c :: nat) \<and> (of_char c :: nat) \<le> 0x39)"

fun scan_digits :: "string \<Rightarrow> nat \<Rightarrow> nat \<times> string" where
  "scan_digits [] acc = (acc, [])"
| "scan_digits (c # cs) acc =
     (if is_digit c then scan_digits cs (10 * acc + (of_char c - 0x30)) else (acc, c # cs))"

text \<open>The integer part of a number: a single \<^verbatim>\<open>0\<close>, or digits that start with none.\<close>

definition scan_nat :: "string \<Rightarrow> (nat \<times> string) option" where
  "scan_nat s =
     (case s of
        [] \<Rightarrow> None
      | c # cs \<Rightarrow>
          if c = CHR ''0'' then Some (0, cs)
          else if is_digit c then Some (scan_digits s 0)
          else None)"

definition scan_number :: "string \<Rightarrow> (json \<times> string) option" where
  "scan_number s =
     (case s of
        [] \<Rightarrow> None
      | c # cs \<Rightarrow>
          (case scan_nat (if c = CHR ''-'' then cs else s) of
             None \<Rightarrow> None
           | Some (n, r) \<Rightarrow>
               if r \<noteq> [] \<and> hd r \<in> {CHR ''.'', CHR ''e'', CHR ''E''} then None
               else Some (JInt (if c = CHR ''-'' then - int n else int n), r)))"

fun strip_prefix :: "string \<Rightarrow> string \<Rightarrow> string option" where
  "strip_prefix [] s = Some s"
| "strip_prefix (p # ps) [] = None"
| "strip_prefix (p # ps) (c # cs) = (if p = c then strip_prefix ps cs else None)"

text \<open>
  The recursive descent of the decoder, with fuel for the nesting and the number of
  items: a value, and an item or a member after it, each take one. Out of fuel the result
  is \<open>None\<close> as well; \<open>json_loads\<close> gives one more than the length of the text.
  A key given twice keeps its first place and its last value, as \<^verbatim>\<open>dict\<close> does.
\<close>

fun parse_value :: "nat \<Rightarrow> string \<Rightarrow> (json \<times> string) option"
  and parse_elems :: "nat \<Rightarrow> string \<Rightarrow> json list \<Rightarrow> (json \<times> string) option"
  and parse_members :: "nat \<Rightarrow> string \<Rightarrow> dict \<Rightarrow> (json \<times> string) option"
where
  "parse_value 0 s = None"
| "parse_value (Suc n) s =
     (case s of
        [] \<Rightarrow> None
      | c # cs \<Rightarrow>
          if c = dquote then
            (case scanstring cs of None \<Rightarrow> None | Some (t, r) \<Rightarrow> Some (JStr t, r))
          else if c = CHR ''['' then
            (case skip_ws cs of
               [] \<Rightarrow> None
             | d # ds \<Rightarrow> if d = CHR '']'' then Some (JArr [], ds) else parse_elems n (d # ds) [])
          else if c = CHR ''{'' then
            (case skip_ws cs of
               [] \<Rightarrow> None
             | d # ds \<Rightarrow> if d = CHR ''}'' then Some (JObj [], ds) else parse_members n (d # ds) [])
          else
            (case strip_prefix ''null'' s of
               Some r \<Rightarrow> Some (JNull, r)
             | None \<Rightarrow>
                 (case strip_prefix ''true'' s of
                    Some r \<Rightarrow> Some (JBool True, r)
                  | None \<Rightarrow>
                      (case strip_prefix ''false'' s of
                         Some r \<Rightarrow> Some (JBool False, r)
                       | None \<Rightarrow> scan_number s))))"
| "parse_elems 0 s acc = None"
| "parse_elems (Suc n) s acc =
     (case parse_value n s of
        None \<Rightarrow> None
      | Some (v, r) \<Rightarrow>
          (case skip_ws r of
             [] \<Rightarrow> None
           | d # ds \<Rightarrow>
               if d = CHR '']'' then Some (JArr (acc @ [v]), ds)
               else if d = CHR '','' then parse_elems n (skip_ws ds) (acc @ [v])
               else None))"
| "parse_members 0 s acc = None"
| "parse_members (Suc n) s acc =
     (case s of
        [] \<Rightarrow> None
      | q # cs \<Rightarrow>
          if q \<noteq> dquote then None
          else
            (case scanstring cs of
               None \<Rightarrow> None
             | Some (k, r) \<Rightarrow>
                 (case skip_ws r of
                    [] \<Rightarrow> None
                  | colon # r' \<Rightarrow>
                      if colon \<noteq> CHR '':'' then None
                      else
                        (case parse_value n (skip_ws r') of
                           None \<Rightarrow> None
                         | Some (v, r'') \<Rightarrow>
                             (case skip_ws r'' of
                                [] \<Rightarrow> None
                              | d # ds \<Rightarrow>
                                  if d = CHR ''}'' then Some (JObj (dict_set acc k v), ds)
                                  else if d = CHR '','' then
                                    parse_members n (skip_ws ds) (dict_set acc k v)
                                  else None)))))"

definition json_loads :: "string \<Rightarrow> json option" where
  "json_loads s =
     (case parse_value (Suc (length s)) (skip_ws s) of
        None \<Rightarrow> None
      | Some (v, r) \<Rightarrow> if skip_ws r = [] then Some v else None)"

section \<open>Search results: \<^verbatim>\<open>simple_query_search\<close>\<close>

subsection \<open>The table of results\<close>

text \<open>
  Modelled from the spec: \<^verbatim>\<open>pandas.DataFrame\<close>, whose code is not in the repository.
  \<^verbatim>\<open>main.py\<close> creates the empty frame and appends one dictionary per hit with
  \<^verbatim>\<open>ignore_index=True\<close>. The spec's \<^emph>\<open>ResultTable\<close> is an ordered sequence of rows,
  each a mapping from field path to value, and the ordered sequence of the column
  names: the union of the keys seen across the rows, in first-seen order. A row that
  lacks a column has an absent cell there.
\<close>

record DataFrame =
  columns :: "string list"
  rows :: "dict list"

definition empty_frame :: DataFrame where
  "empty_frame = \<lparr>columns = [], rows = []\<rparr>"

definition df_append :: "DataFrame \<Rightarrow> dict \<Rightarrow> DataFrame" where
  "df_append df row =
     \<lparr>columns = columns df @ filter (\<lambda>k. k \<notin> set (columns df)) (map fst row),
      rows = rows df @ [row]\<rparr>"

subsection \<open>One hit\<close>

text \<open>\<^verbatim>\<open>for (ssf, ssf_v) in sf_v.items(): hitdict[f + '.' + sf + '.' + ssf] = ssf_v\<close>\<close>

fun ssf_loop :: "string \<Rightarrow> string \<Rightarrow> dict \<Rightarrow> dict \<Rightarrow> dict" where
  "ssf_loop f sf [] hitdict = hitdict"
| "ssf_loop f sf ((ssf, ssf_v) # items) hitdict =
     ssf_loop f sf items (dict_set hitdict (f @ ''.'' @ sf @ ''.'' @ ssf) ssf_v)"

text \<open>\<^verbatim>\<open>for (sf, sf_v) in v.items(): ...\<close>, with its test \<^verbatim>\<open>isinstance(sf_v, dict)\<close>.\<close>

fun sf_loop :: "string \<Rightarrow> dict \<Rightarrow> dict \<Rightarrow> dict" where
  "sf_loop f [] hitdict = hitdict"
| "sf_loop f ((sf, sf_v) # items) hitdict =
     (case sf_v of
        JObj sub \<Rightarrow> sf_loop f items (ssf_loop f sf sub hitdict)
      | _ \<Rightarrow> sf_loop f items (dict_set hitdict (f @ ''.'' @ sf) sf_v))"

text \<open>\<^verbatim>\<open>for (f, v) in hit.pop('_source').items(): ...\<close>, with \<^verbatim>\<open>isinstance(v, dict)\<close>.\<close>

fun source_loop :: "dict \<Rightarrow> dict \<Rightarrow> dict" where
  "source_loop [] hitdict = hitdict"
| "source_loop ((f, v) # items) hitdict =
     (case v of
        JObj sub \<Rightarrow> source_loop items (sf_loop f sub hitdict)
      | _ \<Rightarrow> source_loop items (dict_set hitdict f v))"

text \<open>
  \<^verbatim>\<open>d.pop(k)\<close> with no default: a dictionary without the key raises KeyError; a list
  takes an index, not a string (TypeError); nothing else has the method.
\<close>

definition py_pop :: "json \<Rightarrow> string \<Rightarrow> exn + json" where
  "py_pop d k =
     (case d of
        JObj kvs \<Rightarrow> (case map_of kvs k of None \<Rightarrow> Inl KeyError | Some v \<Rightarrow> Inr v)
      | JArr xs \<Rightarrow> Inl TypeError
      | _ \<Rightarrow> Inl AttributeError)"

text \<open>\<^verbatim>\<open>d.items()\<close>: only a dictionary has the method.\<close>

definition py_items :: "json \<Rightarrow> exn + dict" where
  "py_items d = (case d of JObj kvs \<Rightarrow> Inr kvs | _ \<Rightarrow> Inl AttributeError)"

text \<open>
  What \<^verbatim>\<open>for x in v\<close> visits: the items of a list, the keys of a dictionary, the
  characters of a string; nothing else is iterable.
\<close>

definition py_iter :: "json \<Rightarrow> exn + json list" where
  "py_iter v =
     (case v of
        JArr xs \<Rightarrow> Inr xs
      | JObj kvs \<Rightarrow> Inr (map (\<lambda>kv. JStr (fst kv)) kvs)
      | JStr s \<Rightarrow> Inr (map (\<lambda>c. JStr [c]) s)
      | _ \<Rightarrow> Inl TypeError)"

text \<open>The dictionary \<open>hitdict\<close> of one hit, as the body of the loop over the hits builds it.\<close>

definition hit_row :: "json \<Rightarrow> exn + dict" where
  "hit_row hit =
     (case py_pop hit ''_source'' of
        Inl e \<Rightarrow> Inl e
      | Inr src \<Rightarrow>
          (case py_items src of
             Inl e \<Rightarrow> Inl e
           | Inr items \<Rightarrow> Inr (source_loop items [])))"

subsection \<open>All hits\<close>

fun hits_loop :: "json list \<Rightarrow> DataFrame \<Rightarrow> exn + DataFrame" where
  "hits_loop [] results = Inr results"
| "hits_loop (hit # hits) results =
     (case hit_row hit of
        Inl e \<Rightarrow> Inl e
      | Inr hitdict \<Rightarrow> hits_loop hits (df_append results hitdict))"

text \<open>
  \<^verbatim>\<open>simple_query_search\<close> from the decoded response \<open>requestjson\<close> on (building the
  request is \<open>request_builder\<close>, sending it is the transport's).
\<close>

definition simple_query_search :: "json \<Rightarrow> exn + DataFrame" where
  "simple_query_search requestjson =
     (case py_pop requestjson ''hits'' of
        Inl e \<Rightarrow> Inl e
      | Inr h \<Rightarrow>
          (case py_pop h ''hits'' of
             Inl e \<Rightarrow> Inl e
           | Inr hs \<Rightarrow>
               (case py_iter hs of
                  Inl e \<Rightarrow> Inl e
                | Inr hits \<Rightarrow> hits_loop hits empty_frame)))"

section \<open>Sorting the table: \<^verbatim>\<open>ResultsGrid.column_sort_asc\<close> and \<^verbatim>\<open>column_sort_desc\<close>\<close>

text \<open>A cell of a row; a row without the column, and a \<^verbatim>\<open>None\<close>, count as missing.\<close>

definition cell :: "dict \<Rightarrow> string \<Rightarrow> json option" where
  "cell row col = map_of row col"

definition isna :: "json option \<Rightarrow> bool" where
  "isna c = (c = None \<or> c = Some JNull)"

text \<open>
  The two scalar types a column can have: numbers (Python's booleans are the integers
  0 and 1) and strings, compared by code point.
\<close>

definition is_numeric :: "json option \<Rightarrow> bool" where
  "is_numeric c = (case c of Some (JInt i) \<Rightarrow> True | Some (JBool b) \<Rightarrow> True | _ \<Rightarrow> False)"

definition is_text :: "json option \<Rightarrow> bool" where
  "is_text c = (case c of Some (JStr s) \<Rightarrow> True | _ \<Rightarrow> False)"

definition num_key :: "json option \<Rightarrow> int" where
  "num_key c =
     (case c of Some (JInt i) \<Rightarrow> i | Some (JBool b) \<Rightarrow> (if b then 1 else 0) | _ \<Rightarrow> 0)"

definition text_key :: "json option \<Rightarrow> string" where
  "text_key c = (case c of Some (JStr s) \<Rightarrow> s | _ \<Rightarrow> [])"

text \<open>
  Modelled from the spec: the sort that \<^verbatim>\<open>kind="mergesort"\<close> asks pandas for, whose
  code is not in the repository; the spec has it stable. It is a merge sort by a key; of
  two rows with equal keys the merge takes the left one first.
\<close>

fun merge_key :: "('a \<Rightarrow> 'k::linorder) \<Rightarrow> 'a list \<Rightarrow> 'a list \<Rightarrow> 'a list" where
  "merge_key f [] ys = ys"
| "merge_key f xs [] = xs"
| "merge_key f (x # xs) (y # ys) =
     (if f x \<le> f y then x # merge_key f xs (y # ys) else y # merge_key f (x # xs) ys)"

function msort_key :: "('a \<Rightarrow> 'k::linorder) \<Rightarrow> 'a list \<Rightarrow> 'a list" where
  "msort_key f xs =
     (if length xs \<le> 1 then xs
      else merge_key f (msort_key f (take (length xs div 2) xs))
                       (msort_key f (drop (length xs div 2) xs)))"
  by pat_completeness auto
termination
  by (relation "measure (\<lambda>(f, xs). length xs)") auto

text \<open>
  A descending sort reverses the rows, sorts them ascending and reverses the result, so
  that rows with equal keys come out in the order they came in.
\<close>

definition directed :: "bool \<Rightarrow> ('a list \<Rightarrow> 'a list) \<Rightarrow> 'a list \<Rightarrow> 'a list" where
  "directed ascending srt xs = (if ascending then srt xs else rev (srt (rev xs)))"

text \<open>
  Modelled from the spec: \<^verbatim>\<open>DataFrame.sort_values(by, kind="mergesort", ascending,
  inplace=True, ignore_index=True)\<close> of pandas, whose code is not in the repository.
  The spec's \<^emph>\<open>TableSorter\<close>: a stable sort in either direction; the comparison
  follows the column's scalar type, numeric for numbers and lexicographic for strings;
  missing cells go last whatever the direction and are never compared. A column that is
  not in the table raises KeyError. Where two or more cells are present and they are
  neither all numbers nor all strings, the column has no scalar type and comparing the
  cells raises TypeError (for arrays and objects too, which the spec's rows do not hold).
\<close>

definition sort_values :: "DataFrame \<Rightarrow> string \<Rightarrow> bool \<Rightarrow> exn + DataFrame" where
  "sort_values df col ascending =
     (if col \<notin> set (columns df) then Inl KeyError
      else
        let present = filter (\<lambda>r. \<not> isna (cell r col)) (rows df);
            missing = filter (\<lambda>r. isna (cell r col)) (rows df)
        in
          if length present \<le> 1 then Inr (df\<lparr>rows := present @ missing\<rparr>)
          else if list_all (\<lambda>r. is_numeric (cell r col)) present then
            Inr (df\<lparr>rows := directed ascending (msort_key (\<lambda>r. num_key (cell r col))) present
                           @ missing\<rparr>)
          else if list_all (\<lambda>r. is_text (cell r col)) present then
            Inr (df\<lparr>rows := directed ascending (msort_key (\<lambda>r. text_key (cell r col))) present
                           @ missing\<rparr>)
          else Inl TypeError)"



section \<open>Vocabulary of the properties\<close>

text \<open>The value at a path of keys in a document.\<close>

fun json_at :: "json \<Rightarrow> string list \<Rightarrow> json option" where
  "json_at v [] = Some v"
| "json_at v (k # ks) =
     (case v of
        JObj kvs \<Rightarrow> (case map_of kvs k of None \<Rightarrow> None | Some w \<Rightarrow> json_at w ks)
      | _ \<Rightarrow> None)"

definition is_dict :: "json \<Rightarrow> bool" where
  "is_dict v = (case v of JObj kvs \<Rightarrow> True | _ \<Rightarrow> False)"

text \<open>The property tree \<^verbatim>\<open>mappings.properties\<close> of one index entry of a schema response.\<close>

definition index_properties :: "json \<Rightarrow> dict option" where
  "index_properties doc =
     (case doc of
        JObj d \<Rightarrow>
          (case map_of d ''mappings'' of
             Some (JObj m) \<Rightarrow>
               (case map_of m ''properties'' of Some (JObj props) \<Rightarrow> Some props | _ \<Rightarrow> None)
           | _ \<Rightarrow> None)
      | _ \<Rightarrow> None)"

text \<open>
  A well-formed schema response: every index entry has its property tree, every field
  of the tree is described by a dictionary, and a \<^verbatim>\<open>properties\<close> of a field is a
  dictionary again.
\<close>

definition wf_field :: "json \<Rightarrow> bool" where
  "wf_field d =
     (case d of
        JObj kvs \<Rightarrow>
          (case map_of kvs ''properties'' of
             None \<Rightarrow> True
           | Some (JObj sub) \<Rightarrow> wf_dict sub
           | Some _ \<Rightarrow> False)
      | _ \<Rightarrow> False)"

definition wf_index :: "json \<Rightarrow> bool" where
  "wf_index doc =
     (case index_properties doc of
        Some props \<Rightarrow> wf_dict props \<and> list_all (\<lambda>fd. wf_field (snd fd)) props
      | None \<Rightarrow> False)"

definition wf_schema :: "dict \<Rightarrow> bool" where
  "wf_schema schema = (wf_dict schema \<and> list_all (\<lambda>e. wf_index (snd e)) schema)"

text \<open>An index entry that misses \<^verbatim>\<open>mappings\<close>, or \<^verbatim>\<open>properties\<close> under it.\<close>

definition lacks_nested_keys :: "json \<Rightarrow> bool" where
  "lacks_nested_keys doc =
     (case doc of
        JObj d \<Rightarrow>
          (case map_of d ''mappings'' of
             None \<Rightarrow> True
           | Some (JObj m) \<Rightarrow> map_of m ''properties'' = None
           | Some _ \<Rightarrow> False)
      | _ \<Rightarrow> False)"

text \<open>
  The paths of a schema in the order of a traversal: index after index, field after
  field, a field with \<^verbatim>\<open>properties\<close> by its children.
\<close>

definition field_paths :: "string \<times> json \<Rightarrow> string list" where
  "field_paths fd =
     (case snd fd of
        JObj kvs \<Rightarrow>
          (case map_of kvs ''properties'' of
             Some (JObj sub) \<Rightarrow> map (\<lambda>sf. fst fd @ ''.'' @ sf) (map fst sub)
           | _ \<Rightarrow> [fst fd])
      | _ \<Rightarrow> [fst fd])"

definition index_paths :: "json \<Rightarrow> string list" where
  "index_paths doc =
     (case index_properties doc of
        Some props \<Rightarrow> concat (map field_paths props)
      | None \<Rightarrow> [])"

definition traversal_paths :: "dict \<Rightarrow> string list" where
  "traversal_paths schema = concat (map (\<lambda>e. index_paths (snd e)) schema)"

definition dot_free :: "json \<Rightarrow> bool" where
  "dot_free doc =
     (case index_properties doc of
        Some props \<Rightarrow> list_all (\<lambda>fd. CHR ''.'' \<notin> set (fst fd)) props
      | None \<Rightarrow> True)"

text \<open>
  The leaves of a hit's source to two levels of nesting, with their dotted paths, in
  the order of the traversal.
\<close>

definition leaves2 :: "string \<Rightarrow> string \<times> json \<Rightarrow> (string \<times> json) list" where
  "leaves2 f e =
     (case snd e of
        JObj sub \<Rightarrow> map (\<lambda>l. (f @ ''.'' @ fst e @ ''.'' @ fst l, snd l)) sub
      | _ \<Rightarrow> [(f @ ''.'' @ fst e, snd e)])"

definition leaves1 :: "string \<times> json \<Rightarrow> (string \<times> json) list" where
  "leaves1 e =
     (case snd e of
        JObj sub \<Rightarrow> concat (map (leaves2 (fst e)) sub)
      | _ \<Rightarrow> [e])"

definition leaves :: "dict \<Rightarrow> (string \<times> json) list" where
  "leaves src = concat (map leaves1 src)"

section \<open>Schema discovery: the traversal and its failures\<close>

lemma subfield_loop_eq:
  "subfield_loop f sfs acc = acc @ map (\<lambda>sf. f @ ''.'' @ sf) sfs"
  by (induction sfs arbitrary: acc) simp_all

lemma wf_dict_lookup: "wf_dict kvs \<Longrightarrow> e \<in> set kvs \<Longrightarrow> map_of kvs (fst e) = Some (snd e)"
  by (cases e) (simp add: wf_dict_def)

lemma mem_keys_iff: "k \<in> fst ` set kvs \<longleftrightarrow> map_of kvs k \<noteq> None"
  by (simp add: map_of_eq_None_iff)

lemma field_step:
  assumes "map_of props f = Some d" and "wf_field d"
  shows "field_loop (JObj props) (f # fs) acc =
         field_loop (JObj props) fs (acc @ field_paths (f, d))"
  using assms
  by (auto simp: py_get_def py_keys_def wf_field_def field_paths_def subfield_loop_eq
        mem_keys_iff
      split: json.splits option.splits)

lemma field_loop_wf:
  "\<forall>fd\<in>set kvs. map_of props (fst fd) = Some (snd fd) \<and> wf_field (snd fd) \<Longrightarrow>
   field_loop (JObj props) (map fst kvs) acc = Inr (acc @ concat (map field_paths kvs))"
proof (induction kvs arbitrary: acc)
  case Nil
  then show ?case by simp
next
  case (Cons fd kvs)
  have "field_loop (JObj props) (fst fd # map fst kvs) acc =
        field_loop (JObj props) (map fst kvs) (acc @ field_paths (fst fd, snd fd))"
    using Cons.prems by (intro field_step) simp_all
  with Cons show ?case by simp
qed

lemma fields_of_mappings_wf:
  assumes "wf_dict props" and "list_all (\<lambda>fd. wf_field (snd fd)) props"
  shows "fields_of_mappings (JObj props) acc = Inr (acc @ concat (map field_paths props))"
  using assms
  by (simp add: fields_of_mappings_def field_loop_wf wf_dict_lookup list_all_iff)

lemma index_step:
  assumes "map_of schema key = Some doc" and "wf_index doc"
  shows "index_loop (JObj schema) (key # keys) acc =
         index_loop (JObj schema) keys (acc @ index_paths doc)"
  using assms
  by (auto simp: py_get_def wf_index_def index_properties_def index_paths_def
        fields_of_mappings_wf
      split: json.splits option.splits)

lemma index_loop_wf:
  "\<forall>e\<in>set es. map_of schema (fst e) = Some (snd e) \<and> wf_index (snd e) \<Longrightarrow>
   index_loop (JObj schema) (map fst es) acc =
     Inr (acc @ concat (map (\<lambda>e. index_paths (snd e)) es))"
proof (induction es arbitrary: acc)
  case Nil
  then show ?case by simp
next
  case (Cons e es)
  have "index_loop (JObj schema) (fst e # map fst es) acc =
        index_loop (JObj schema) (map fst es) (acc @ index_paths (snd e))"
    using Cons.prems by (intro index_step) simp_all
  with Cons show ?case by simp
qed

lemma index_field_names_wf:
  assumes "wf_schema schema"
  shows "index_field_names (JObj schema) = Inr (traversal_paths schema)"
  using assms
  by (simp add: index_field_names_def py_keys_def wf_schema_def index_loop_wf
      wf_dict_lookup list_all_iff traversal_paths_def)


lemma field_paths_stem:
  assumes "CHR ''.'' \<notin> set (fst fd)" and "p \<in> set (field_paths fd)"
  shows "takeWhile (\<lambda>c. c \<noteq> CHR ''.'') p = fst fd"
proof -
  have all: "\<forall>c\<in>set (fst fd). c \<noteq> CHR ''.''"
    using assms(1) by auto
  from assms(2) consider "p = fst fd" | sf where "p = fst fd @ ''.'' @ sf"
    by (auto simp: field_paths_def split: json.splits option.splits)
  then show ?thesis
  proof cases
    case 1
    with all show ?thesis by (simp add: takeWhile_eq_all_conv)
  next
    case 2
    with all show ?thesis by (simp add: takeWhile_append2)
  qed
qed

lemma field_paths_distinct: "wf_field d \<Longrightarrow> distinct (field_paths (f, d))"
  by (auto simp: field_paths_def wf_field_def wf_dict_def distinct_map inj_on_def
      split: json.splits option.splits)

lemma paths_distinct:
  assumes "wf_dict props" and "list_all (\<lambda>fd. wf_field (snd fd)) props"
    and "list_all (\<lambda>fd. CHR ''.'' \<notin> set (fst fd)) props"
  shows "distinct (concat (map field_paths props))"
  using assms
proof (induction props)
  case Nil
  then show ?case by simp
next
  case (Cons fd props)
  have rest: "distinct (concat (map field_paths props))"
    using Cons by (simp add: wf_dict_def)
  have here: "distinct (field_paths fd)"
    using Cons.prems(2) field_paths_distinct [of "snd fd" "fst fd"] by simp
  have "set (field_paths fd) \<inter> set (concat (map field_paths props)) = {}"
  proof (rule ccontr)
    assume "set (field_paths fd) \<inter> set (concat (map field_paths props)) \<noteq> {}"
    then obtain p fd' where p: "p \<in> set (field_paths fd)" and fd': "fd' \<in> set props"
      and p': "p \<in> set (field_paths fd')"
      by auto
    have "takeWhile (\<lambda>c. c \<noteq> CHR ''.'') p = fst fd"
      using Cons.prems(3) p by (intro field_paths_stem) simp_all
    moreover have "takeWhile (\<lambda>c. c \<noteq> CHR ''.'') p = fst fd'"
      using Cons.prems(3) fd' p' by (intro field_paths_stem) (simp_all add: list_all_iff)
    ultimately have "fst fd = fst fd'"
      by (rule trans [OF sym])
    with fd' have "fst fd \<in> fst ` set props"
      by (metis image_eqI)
    with Cons.prems(1) show False by (simp add: wf_dict_def)
  qed
  with rest here show ?case by simp
qed

lemma single_index_distinct:
  assumes "wf_schema [e]" and "dot_free (snd e)"
  shows "distinct (traversal_paths [e])"
  using assms
  by (auto simp: wf_schema_def wf_index_def dot_free_def traversal_paths_def index_paths_def
        paths_distinct
      split: option.splits)

lemma field_loop_errors: "field_loop m fs acc = Inl x \<Longrightarrow> x = AttributeError"
  by (induction m fs acc rule: field_loop.induct)
     (auto simp: py_get_def py_keys_def split: json.splits option.splits sum.splits if_splits)

lemma fields_of_mappings_errors:
  "fields_of_mappings m acc = Inl x \<Longrightarrow> x = AttributeError \<or> x = TypeError"
  by (auto simp: fields_of_mappings_def dest: field_loop_errors split: json.splits if_splits)

lemma index_loop_errors:
  "index_loop r ks acc = Inl x \<Longrightarrow> x = AttributeError \<or> x = TypeError"
proof (induction ks arbitrary: acc)
  case Nil
  then show ?case by simp
next
  case (Cons k ks)
  then show ?case
    by (auto simp: py_get_def dest: fields_of_mappings_errors
        split: json.splits option.splits sum.splits)
qed

lemma index_field_names_errors:
  "index_field_names r = Inl x \<Longrightarrow> x = AttributeError \<or> x = TypeError"
  by (auto simp: index_field_names_def py_keys_def dest: index_loop_errors
      split: json.splits sum.splits)

lemma lacks_step:
  assumes "map_of schema key = Some doc" and "lacks_nested_keys doc"
  shows "\<exists>x. index_loop (JObj schema) (key # keys) acc = Inl x"
  using assms
  by (auto simp: py_get_def lacks_nested_keys_def fields_of_mappings_def
      split: json.splits option.splits)

lemma index_loop_lacks:
  assumes "e \<in> set es" and "lacks_nested_keys (snd e)"
    and "\<forall>e\<in>set es. map_of schema (fst e) = Some (snd e)"
  shows "\<exists>x. index_loop (JObj schema) (map fst es) acc = Inl x"
  using assms
proof (induction es arbitrary: acc)
  case Nil
  then show ?case by simp
next
  case (Cons a es)
  show ?case
  proof (cases "e = a")
    case True
    with Cons.prems show ?thesis
      using lacks_step [of schema "fst a" "snd a"] by simp
  next
    case False
    with Cons.prems have "e \<in> set es" by simp
    then have IH: "\<exists>x. index_loop (JObj schema) (map fst es) acc' = Inl x" for acc'
      using Cons.IH Cons.prems by simp
    show ?thesis
      using IH
      by (auto split: sum.splits)
  qed
qed

lemma first_lacks_mappings:
  assumes "map_of d ''mappings'' = None"
  shows "index_field_names (JObj ((k, JObj d) # rest)) = Inl AttributeError"
  using assms by (simp add: index_field_names_def py_keys_def py_get_def)

lemma first_lacks_properties:
  assumes "map_of d ''mappings'' = Some (JObj m)" and "map_of m ''properties'' = None"
  shows "index_field_names (JObj ((k, JObj d) # rest)) = Inl TypeError"
  using assms
  by (simp add: index_field_names_def py_keys_def py_get_def fields_of_mappings_def)


text \<open>
  C1, as amended. For every well-formed schema response, \<^verbatim>\<open>index_field_names\<close> returns
  the paths in the order of the traversal: index after index in the order of the
  response, field after field, a field with \<^verbatim>\<open>properties\<close> by its children as
  \<^verbatim>\<open>parent.child\<close>. It removes no duplicate: a path that two indices yield is there
  twice. The result has no duplicate when the response has a single index and none of its
  top-level field names contains a dot.
\<close>
theorem flatten_traversal_order:
  assumes "wf_schema schema"
  shows "index_field_names (JObj schema) = Inr (traversal_paths schema) \<and>
         (length schema = 1 \<and> list_all (\<lambda>e. dot_free (snd e)) schema \<longrightarrow>
            distinct (traversal_paths schema))"
proof
  show "index_field_names (JObj schema) = Inr (traversal_paths schema)"
    using assms by (rule index_field_names_wf)
next
  show "length schema = 1 \<and> list_all (\<lambda>e. dot_free (snd e)) schema \<longrightarrow>
        distinct (traversal_paths schema)"
  proof
    assume a: "length schema = 1 \<and> list_all (\<lambda>e. dot_free (snd e)) schema"
    then obtain e where e: "schema = [e]"
      by (cases schema) auto
    with a assms show "distinct (traversal_paths schema)"
      by (simp add: single_index_distinct)
  qed
qed

text \<open>The schema of the spec's end-to-end scenario.\<close>
theorem flatten_traversal_order_witness:
  "wf_schema
     [(''idx'', JObj [(''mappings'', JObj [(''properties'', JObj
        [(''user'', JObj [(''properties'', JObj [(''name'', JObj []), (''age'', JObj [])])]),
         (''ts'', JObj [])])])])] \<and>
   index_field_names (JObj
     [(''idx'', JObj [(''mappings'', JObj [(''properties'', JObj
        [(''user'', JObj [(''properties'', JObj [(''name'', JObj []), (''age'', JObj [])])]),
         (''ts'', JObj [])])])])]) = Inr [''user.name'', ''user.age'', ''ts''] \<and>
   distinct [''user.name'', ''user.age'', ''ts'']"
proof -
  let ?S = "[(''idx'', JObj [(''mappings'', JObj [(''properties'', JObj
        [(''user'', JObj [(''properties'', JObj [(''name'', JObj []), (''age'', JObj [])])]),
         (''ts'', JObj [])])])])]"
  have wf: "wf_schema ?S"
    by (simp add: wf_schema_def wf_index_def wf_field_def wf_dict_def index_properties_def)
  have tp: "traversal_paths ?S = [''user.name'', ''user.age'', ''ts'']"
    by (simp add: traversal_paths_def index_paths_def index_properties_def field_paths_def)
  from flatten_traversal_order [OF wf] wf tp show ?thesis
    by simp
qed

text \<open>
  C1 as stated fails: two indices with the same field give the path twice.
\<close>
theorem flatten_keeps_duplicates:
  "\<exists>out. index_field_names (JObj
      [(''logs-1'', JObj [(''mappings'', JObj [(''properties'', JObj [(''ts'', JObj [])])])]),
       (''logs-2'', JObj [(''mappings'', JObj [(''properties'', JObj [(''ts'', JObj [])])])])])
     = Inr out \<and> \<not> distinct out"
  by (simp add: index_field_names_def py_keys_def py_get_def fields_of_mappings_def)

text \<open>
  C5, as amended. A schema response with an index entry that misses \<^verbatim>\<open>mappings\<close>, or
  \<^verbatim>\<open>properties\<close> under it, makes \<^verbatim>\<open>index_field_names\<close> fail with Python's
  AttributeError or TypeError: AttributeError when the first entry has no
  \<^verbatim>\<open>mappings\<close>, TypeError when it has \<^verbatim>\<open>mappings\<close> without \<^verbatim>\<open>properties\<close>. A
  well-formed response raises nothing, and no response raises a SchemaFormatError.
\<close>
theorem malformed_schema_raises:
  "(wf_dict schema \<and> (\<exists>e\<in>set schema. lacks_nested_keys (snd e)) \<longrightarrow>
      index_field_names (JObj schema) = Inl AttributeError \<or>
      index_field_names (JObj schema) = Inl TypeError) \<and>
   (map_of d ''mappings'' = None \<longrightarrow>
      index_field_names (JObj ((k, JObj d) # rest)) = Inl AttributeError) \<and>
   (map_of d ''mappings'' = Some (JObj m) \<and> map_of m ''properties'' = None \<longrightarrow>
      index_field_names (JObj ((k, JObj d) # rest)) = Inl TypeError) \<and>
   (wf_schema schema \<longrightarrow> (\<exists>out. index_field_names (JObj schema) = Inr out)) \<and>
   index_field_names requestjson \<noteq> Inl SchemaFormatError"
proof (intro conjI impI)
  assume a: "wf_dict schema \<and> (\<exists>e\<in>set schema. lacks_nested_keys (snd e))"
  then obtain e where e: "e \<in> set schema" "lacks_nested_keys (snd e)"
    by blast
  have "\<forall>e\<in>set schema. map_of schema (fst e) = Some (snd e)"
    using a by (simp add: wf_dict_lookup)
  with e obtain x where "index_loop (JObj schema) (map fst schema) [] = Inl x"
    using index_loop_lacks by blast
  then have x: "index_field_names (JObj schema) = Inl x"
    by (simp add: index_field_names_def py_keys_def)
  with index_field_names_errors [OF x]
  show "index_field_names (JObj schema) = Inl AttributeError \<or>
        index_field_names (JObj schema) = Inl TypeError"
    by auto
next
  assume "map_of d ''mappings'' = None"
  then show "index_field_names (JObj ((k, JObj d) # rest)) = Inl AttributeError"
    by (rule first_lacks_mappings)
next
  assume "map_of d ''mappings'' = Some (JObj m) \<and> map_of m ''properties'' = None"
  then show "index_field_names (JObj ((k, JObj d) # rest)) = Inl TypeError"
    by (simp add: first_lacks_properties)
next
  assume "wf_schema schema"
  then show "\<exists>out. index_field_names (JObj schema) = Inr out"
    by (simp add: index_field_names_wf)
next
  show "index_field_names requestjson \<noteq> Inl SchemaFormatError"
    using index_field_names_errors [of requestjson SchemaFormatError] by auto
qed

text \<open>An entry with settings only, one with empty mappings, and a well-formed one.\<close>
theorem malformed_schema_raises_witness:
  "index_field_names (JObj [(''idx'', JObj [(''settings'', JObj [])])]) = Inl AttributeError \<and>
   index_field_names (JObj [(''idx'', JObj [(''mappings'', JObj [])])]) = Inl TypeError \<and>
   (\<exists>out. index_field_names (JObj
      [(''idx'', JObj [(''mappings'', JObj [(''properties'', JObj [(''ts'', JObj [])])])])])
      = Inr out)"
proof -
  have 1: "map_of [(''settings'', JObj [])] ''mappings'' = None"
    by simp
  have 2: "map_of [(''mappings'', JObj [])] ''mappings'' = Some (JObj []) \<and>
           map_of [] ''properties'' = (None :: json option)"
    by simp
  have 3: "wf_schema
     [(''idx'', JObj [(''mappings'', JObj [(''properties'', JObj [(''ts'', JObj [])])])])]"
    by (simp add: wf_schema_def wf_index_def wf_field_def wf_dict_def index_properties_def)
  have 4: "wf_dict [(''idx'', JObj [(''settings'', JObj [])])] \<and>
           (\<exists>e\<in>set [(''idx'', JObj [(''settings'', JObj [])])]. lacks_nested_keys (snd e))"
    by (simp add: wf_dict_def lacks_nested_keys_def)
  note t = malformed_schema_raises
    [of "[(''idx'', JObj [(''settings'', JObj [])])]" "[(''settings'', JObj [])]" "''idx''" "[]"]
  note u = malformed_schema_raises
    [of _ "[(''mappings'', JObj [])]" "''idx''" "[]" "[]"]
  note v = malformed_schema_raises
    [of "[(''idx'', JObj [(''mappings'', JObj [(''properties'', JObj [(''ts'', JObj [])])])])]"]
  from t 1 4 have a: "index_field_names (JObj [(''idx'', JObj [(''settings'', JObj [])])]) = Inl AttributeError"
    by blast
  from u 2 have b: "index_field_names (JObj [(''idx'', JObj [(''mappings'', JObj [])])]) = Inl TypeError"
    by blast
  from v 3 have c: "\<exists>out. index_field_names (JObj
      [(''idx'', JObj [(''mappings'', JObj [(''properties'', JObj [(''ts'', JObj [])])])])])
      = Inr out"
    by blast
  from a b c show ?thesis by blast
qed

text \<open>
  C5 as stated fails: an index entry without \<^verbatim>\<open>mappings\<close> raises AttributeError, not
  a SchemaFormatError.
\<close>
theorem malformed_schema_not_SchemaFormatError:
  "lacks_nested_keys (JObj []) \<and>
   index_field_names (JObj [(''idx'', JObj [])]) = Inl AttributeError \<and>
   index_field_names (JObj [(''idx'', JObj [])]) \<noteq> Inl SchemaFormatError"
  by (simp add: lacks_nested_keys_def index_field_names_def py_keys_def py_get_def)

section \<open>The request read back\<close>

lemma hexval_hexdigit: "d < 16 \<Longrightarrow> hexval (hexdigit d) = Some d"
proof -
  assume "d < 16"
  then consider "d = 0" | "d = 1" | "d = 2" | "d = 3" | "d = 4" | "d = 5" | "d = 6" | "d = 7"
    | "d = 8" | "d = 9" | "d = 10" | "d = 11" | "d = 12" | "d = 13" | "d = 14" | "d = 15"
    by atomize_elim arith
  then show ?thesis
    by cases (simp_all add: hexdigit_def hexval_def)
qed

lemma hexval_zero: "hexval (CHR ''0'') = Some 0"
  by (simp add: hexval_def)

lemma hex4_byte:
  assumes "n < 256"
  shows "hex4 (CHR ''0'') (CHR ''0'') (hexdigit (n div 16)) (hexdigit (n mod 16)) = Some n"
proof -
  have "n div 16 < 16" using assms by simp
  then show ?thesis
    by (simp add: hex4_def hexval_zero hexval_hexdigit)
qed


lemma scanstring_escape_char:
  "scanstring (escape_char c @ rest) =
     (case scanstring rest of None \<Rightarrow> None | Some (s, r) \<Rightarrow> Some (c # s, r))"
proof -
  consider (special) "c = dquote \<or> c = backslash \<or> c = CHR 0x0A \<or> c = CHR 0x0D \<or> c = CHR 0x09
      \<or> c = CHR 0x08 \<or> c = CHR 0x0C"
    | (hex) "c \<noteq> dquote" "c \<noteq> backslash" "c \<noteq> CHR 0x0A" "c \<noteq> CHR 0x0D" "c \<noteq> CHR 0x09"
        "c \<noteq> CHR 0x08" "c \<noteq> CHR 0x0C" "(of_char c :: nat) < 0x20 \<or> 0x7E < (of_char c :: nat)"
    | (plain) "c \<noteq> dquote" "c \<noteq> backslash" "c \<noteq> CHR 0x0A" "c \<noteq> CHR 0x0D" "c \<noteq> CHR 0x09"
        "c \<noteq> CHR 0x08" "c \<noteq> CHR 0x0C" "\<not> ((of_char c :: nat) < 0x20 \<or> 0x7E < (of_char c :: nat))"
    by blast
  then show ?thesis
  proof cases
    case special
    then show ?thesis
      by (auto simp: escape_char_def dquote_def backslash_def unescape_def)
  next
    case hex
    then show ?thesis
      by (cases "scanstring rest")
         (auto simp: escape_char_def hex4_byte dquote_def backslash_def)
  next
    case plain
    then show ?thesis
      by (simp add: escape_char_def)
  qed
qed

lemma scanstring_escaped:
  "scanstring (concat (map escape_char s) @ dquote # r) = Some (s, r)"
  by (induction s) (simp_all add: scanstring_escape_char)

lemma parse_value_string:
  "parse_value (Suc n) (encode_string s @ r) = Some (JStr s, r)"
  by (simp add: encode_string_def scanstring_escaped)

lemma skip_ws_string: "skip_ws (encode_string s @ r) = encode_string s @ r"
  by (simp add: encode_string_def is_ws_def dquote_def)


lemma skip_ws_items:
  "skip_ws (dumps_items (map JStr (y # ys)) @ r) = dumps_items (map JStr (y # ys)) @ r"
  by (cases ys) (simp_all add: skip_ws_string)

lemma parse_elems_strings:
  "xs \<noteq> [] \<Longrightarrow> length xs < n \<Longrightarrow>
   parse_elems n (dumps_items (map JStr xs) @ CHR '']'' # r) acc =
     Some (JArr (acc @ map JStr xs), r)"
proof (induction xs arbitrary: n acc rule: list_nonempty_induct)
  case (single x)
  then obtain m where n: "n = Suc (Suc m)"
    by (metis One_nat_def length_Cons less_imp_Suc_add list.size(3) add_Suc)
  show ?case
    by (simp add: n parse_value_string is_ws_def del: parse_value.simps)
next
  case (cons x xs)
  then obtain m where n: "n = Suc (Suc m)" and m: "length xs < Suc m"
    by (metis length_Cons less_imp_Suc_add add_Suc Suc_less_eq less_Suc_eq zero_less_Suc)
  obtain y ys where xs: "xs = y # ys"
    using cons.hyps by (cases xs) auto
  have "parse_elems (Suc m) (dumps_items (map JStr xs) @ CHR '']'' # r) (acc @ [JStr x]) =
        Some (JArr ((acc @ [JStr x]) @ map JStr xs), r)"
    using m by (rule cons.IH)
  then show ?case
    using skip_ws_items [of y ys "CHR '']'' # r"]
    by (simp add: n xs parse_value_string is_ws_def del: parse_value.simps)
qed

lemma parse_value_strings:
  assumes "xs \<noteq> []" and "length xs < n"
  shows "parse_value (Suc n) (CHR ''['' # dumps_items (map JStr xs) @ CHR '']'' # r) =
         Some (JArr (map JStr xs), r)"
proof -
  obtain y ys where xs: "xs = y # ys"
    using assms(1) by (cases xs) auto
  have first: "skip_ws (dumps_items (map JStr xs) @ CHR '']'' # r) =
               dquote # tl (dumps_items (map JStr xs) @ CHR '']'' # r)"
    unfolding xs skip_ws_items by (cases ys) (simp_all add: encode_string_def)
  have rebuild: "dquote # tl (dumps_items (map JStr xs) @ CHR '']'' # r) =
              dumps_items (map JStr xs) @ CHR '']'' # r"
    unfolding xs by (cases ys) (simp_all add: encode_string_def)
  show ?thesis
    using parse_elems_strings [OF assms, of r "[]"]
    by (simp add: first dquote_def) (simp add: rebuild [unfolded dquote_def])
qed

lemma parse_value_object:
  "parse_value (Suc n) (CHR ''{'' # encode_string k @ r) = parse_members n (encode_string k @ r) []"
  by (simp add: encode_string_def is_ws_def dquote_def)

lemma parse_members_key:
  "parse_members (Suc n) (encode_string k @ CHR '':'' # r) acc =
     (case parse_value n (skip_ws r) of
        None \<Rightarrow> None
      | Some (v, r'') \<Rightarrow>
          (case skip_ws r'' of
             [] \<Rightarrow> None
           | d # ds \<Rightarrow>
               if d = CHR ''}'' then Some (JObj (dict_set acc k v), ds)
               else if d = CHR '','' then parse_members n (skip_ws ds) (dict_set acc k v)
               else None))"
  by (simp add: encode_string_def scanstring_escaped is_ws_def)

lemma repr_int_100: "repr_int 100 = ''100''"
  by (simp add: repr_int_def digits_of.simps [of 100] digits_of.simps [of 10]
      digits_of.simps [of 1] hexdigit_def)

lemma parse_value_100:
  "parse_value (Suc n) (CHR ''1'' # CHR ''0'' # CHR ''0'' # CHR '','' # r) = Some (JInt 100, CHR '','' # r)"
  by (simp add: dquote_def scan_number_def scan_nat_def is_digit_def)

lemma py_split_nonempty: "py_split s sep \<noteq> []"
proof -
  have "split_loop sep s piece \<noteq> []" for piece
    by (induction s arbitrary: piece) simp_all
  then show ?thesis by (simp add: py_split_def)
qed

lemma request_body_eq:
  "request_body q f =
     JObj [(''_source'', JArr (map JStr (py_split f (CHR '','')))), (''size'', JInt 100),
           (''query'', JObj [(''multi_match'', JObj [(''query'', JStr q)])])]"
  by (simp add: request_body_def)

lemma parse_request:
  assumes "length (py_split f (CHR '','')) < n"
  shows "parse_value (Suc (Suc (Suc (Suc (Suc (Suc (Suc (Suc (Suc n)))))))))
           (request_builder q f) = Some (request_body q f, [])"
  using assms
  by (simp add: request_builder_def request_body_eq repr_int_100 parse_value_object
        parse_members_key parse_value_strings parse_value_string parse_value_100
        skip_ws_string py_split_nonempty is_ws_def
      del: parse_value.simps parse_members.simps)

lemma length_encode_string: "2 \<le> length (encode_string s)"
  by (simp add: encode_string_def)

lemma length_dumps_strings: "length xs \<le> length (dumps_items (map JStr xs))"
proof (induction xs rule: induct_list012)
  case 1
  show ?case by simp
next
  case (2 x)
  show ?case using length_encode_string [of x] by simp
next
  case (3 x y zs)
  then show ?case using length_encode_string [of x] by simp
qed

lemma loads_request: "json_loads (request_builder q f) = Some (request_body q f)"
proof -
  let ?text = "request_builder q f"
  have bound: "length (py_split f (CHR '','')) + 9 \<le> length ?text"
    using length_dumps_strings [of "py_split f (CHR '','')"]
    by (simp add: request_builder_def request_body_eq repr_int_100)
  define n where "n = length ?text - 8"
  have n: "length ?text = n + 8" and k: "length (py_split f (CHR '','')) < n"
    using bound by (simp_all add: n_def)
  have start: "skip_ws ?text = ?text"
    by (simp add: request_builder_def request_body_eq is_ws_def)
  have "parse_value (Suc (length ?text)) ?text = Some (request_body q f, [])"
    unfolding n using parse_request [OF k, of q] by (simp add: eval_nat_numeral)
  then show ?thesis
    by (simp add: json_loads_def start)
qed

lemma join_split_loop: "py_join sep (split_loop sep s piece) = piece @ s"
proof (induction s arbitrary: piece)
  case Nil
  show ?case by simp
next
  case (Cons c cs)
  show ?case
  proof (cases "c = sep")
    case True
    obtain p ps where ps: "split_loop sep cs [] = p # ps"
      by (cases "split_loop sep cs []") (use py_split_nonempty [of cs sep] in \<open>simp_all add: py_split_def\<close>)
    have "py_join sep (p # ps) = cs"
      using Cons.IH [of "[]"] ps by simp
    then show ?thesis
      using True ps by simp
  next
    case False
    then show ?thesis using Cons.IH [of "piece @ [c]"] by simp
  qed
qed

lemma split_loop_pieces:
  "sep \<notin> set piece \<Longrightarrow> list_all (\<lambda>p. sep \<notin> set p) (split_loop sep s piece)"
  by (induction s arbitrary: piece) simp_all

text \<open>
  C2. For every query text and every field string, the request body that
  \<^verbatim>\<open>request_builder\<close> returns deserializes, and in the document \<^verbatim>\<open>size\<close> is 100
  and \<^verbatim>\<open>query.multi_match.query\<close> is the query text; the empty query text is one
  of them.
\<close>
theorem request_deserializes:
  "\<exists>doc. json_loads (request_builder search_term flds) = Some doc \<and>
     json_at doc [''size''] = Some (JInt 100) \<and>
     json_at doc [''query'', ''multi_match'', ''query''] = Some (JStr search_term)"
proof (intro exI conjI)
  show "json_loads (request_builder search_term flds) = Some (request_body search_term flds)"
    by (rule loads_request)
  show "json_at (request_body search_term flds) [''size''] = Some (JInt 100)"
    by (simp add: request_body_eq)
  show "json_at (request_body search_term flds) [''query'', ''multi_match'', ''query'']
        = Some (JStr search_term)"
    by (simp add: request_body_eq)
qed

text \<open>The empty query text with the wildcard for the fields.\<close>
theorem request_deserializes_witness:
  "\<exists>doc. json_loads (request_builder [] ''*'') = Some doc \<and>
     json_at doc [''size''] = Some (JInt 100) \<and>
     json_at doc [''query'', ''multi_match'', ''query''] = Some (JStr [])"
  by (rule request_deserializes)

text \<open>
  C9. For every field string, the request that \<^verbatim>\<open>request_builder\<close> returns has the
  key \<^verbatim>\<open>_source\<close>, and its value is the list of the pieces of the field string
  between its commas: joined by commas they give the field string back, and no piece
  contains a comma. The wildcard \<^verbatim>\<open>*\<close> gives the one piece \<^verbatim>\<open>*\<close>, the empty string
  gives the one empty piece.
\<close>
theorem request_source_is_split:
  "(\<exists>doc. json_loads (request_builder search_term flds) = Some doc \<and>
      json_at doc [''_source''] = Some (JArr (map JStr (py_split flds (CHR '','')))))
   \<and> py_join (CHR '','') (py_split flds (CHR '','')) = flds
   \<and> list_all (\<lambda>p. CHR '','' \<notin> set p) (py_split flds (CHR '',''))
   \<and> py_split ''*'' (CHR '','') = [''*'']
   \<and> py_split [] (CHR '','') = [[]]"
proof (intro conjI exI)
  show "json_loads (request_builder search_term flds) = Some (request_body search_term flds)"
    by (rule loads_request)
  show "json_at (request_body search_term flds) [''_source'']
        = Some (JArr (map JStr (py_split flds (CHR '',''))))"
    by (simp add: request_body_eq)
  show "py_join (CHR '','') (py_split flds (CHR '','')) = flds"
    by (simp add: py_split_def join_split_loop)
  show "list_all (\<lambda>p. CHR '','' \<notin> set p) (py_split flds (CHR '',''))"
    by (simp add: py_split_def split_loop_pieces)
  show "py_split ''*'' (CHR '','') = [''*'']"
    by (simp add: py_split_def)
  show "py_split [] (CHR '','') = [[]]"
    by (simp add: py_split_def)
qed

text \<open>Two fields, the wildcard, and no field at all.\<close>
theorem request_source_is_split_witness:
  "(\<exists>doc. json_loads (request_builder ''error'' ''user.name,ts'') = Some doc \<and>
      json_at doc [''_source''] = Some (JArr [JStr ''user.name'', JStr ''ts''])) \<and>
   (\<exists>doc. json_loads (request_builder ''error'' ''*'') = Some doc \<and>
      json_at doc [''_source''] = Some (JArr [JStr ''*''])) \<and>
   (\<exists>doc. json_loads (request_builder ''error'' []) = Some doc \<and>
      json_at doc [''_source''] = Some (JArr [JStr []]))"
proof -
  have two: "py_split ''user.name,ts'' (CHR '','') = [''user.name'', ''ts'']"
    by (simp add: py_split_def)
  note a = request_source_is_split [of "''error''" "''user.name,ts''", THEN conjunct1]
  note b = request_source_is_split [of "''error''" "''*''", THEN conjunct1]
  note c = request_source_is_split [of "''error''" "[]", THEN conjunct1]
  note star = request_source_is_split [of "[]" "[]", THEN conjunct2, THEN conjunct2,
      THEN conjunct2, THEN conjunct1]
  note none = request_source_is_split [of "[]" "[]", THEN conjunct2, THEN conjunct2,
      THEN conjunct2, THEN conjunct2]
  from a have 1: "\<exists>doc. json_loads (request_builder ''error'' ''user.name,ts'') = Some doc \<and>
      json_at doc [''_source''] = Some (JArr [JStr ''user.name'', JStr ''ts''])"
    by (simp add: two)
  from b have 2: "\<exists>doc. json_loads (request_builder ''error'' ''*'') = Some doc \<and>
      json_at doc [''_source''] = Some (JArr [JStr ''*''])"
    by (simp add: star)
  from c have 3: "\<exists>doc. json_loads (request_builder ''error'' []) = Some doc \<and>
      json_at doc [''_source''] = Some (JArr [JStr []])"
    by (simp add: none)
  from 1 2 3 show ?thesis by (intro conjI)
qed

section \<open>The rows of the hits\<close>

lemma dict_set_fresh: "k \<notin> fst ` set d \<Longrightarrow> dict_set d k v = d @ [(k, v)]"
  by (induction d) auto

lemma dict_set_subset: "set (dict_set d k v) \<subseteq> insert (k, v) (set d)"
  by (induction d) (auto split: if_splits)

lemma dict_set_keys: "fst ` set (dict_set d k v) = insert k (fst ` set d)"
proof (induction d)
  case Nil
  show ?case by simp
next
  case (Cons a d)
  show ?case
  proof (cases "fst a = k")
    case True
    then show ?thesis by (cases a) auto
  next
    case False
    then show ?thesis using Cons.IH by (cases a) auto
  qed
qed

lemma writes_subset:
  "set (fold (\<lambda>e d. dict_set d (fst e) (snd e)) ws d) \<subseteq> set ws \<union> set d"
proof (induction ws arbitrary: d)
  case Nil
  show ?case by simp
next
  case (Cons w ws)
  have "set (fold (\<lambda>e d. dict_set d (fst e) (snd e)) ws (dict_set d (fst w) (snd w)))
        \<subseteq> set ws \<union> set (dict_set d (fst w) (snd w))"
    by (rule Cons.IH)
  also have "\<dots> \<subseteq> set ws \<union> insert (fst w, snd w) (set d)"
    using dict_set_subset [of d "fst w" "snd w"] by blast
  finally show ?case by auto
qed

lemma writes_keys:
  "fst ` set (fold (\<lambda>e d. dict_set d (fst e) (snd e)) ws d) = fst ` set ws \<union> fst ` set d"
  by (induction ws arbitrary: d) (auto simp: dict_set_keys)

lemma writes_distinct:
  "distinct (map fst (d @ ws)) \<Longrightarrow> fold (\<lambda>e d. dict_set d (fst e) (snd e)) ws d = d @ ws"
proof (induction ws arbitrary: d)
  case Nil
  show ?case by simp
next
  case (Cons w ws)
  have fresh: "fst w \<notin> fst ` set d"
    using Cons.prems by auto
  have "distinct (map fst ((d @ [w]) @ ws))"
    using Cons.prems by simp
  then have "fold (\<lambda>e d. dict_set d (fst e) (snd e)) ws (d @ [w]) = (d @ [w]) @ ws"
    by (rule Cons.IH)
  then show ?case
    using fresh by (simp add: dict_set_fresh)
qed

lemma ssf_loop_writes:
  "ssf_loop f sf items d =
     fold (\<lambda>e d. dict_set d (fst e) (snd e))
       (map (\<lambda>l. (f @ ''.'' @ sf @ ''.'' @ fst l, snd l)) items) d"
  by (induction f sf items d rule: ssf_loop.induct) simp_all

lemma sf_loop_writes:
  "sf_loop f items d =
     fold (\<lambda>e d. dict_set d (fst e) (snd e)) (concat (map (leaves2 f) items)) d"
proof (induction f items d rule: sf_loop.induct)
  case (1 f hitdict)
  show ?case by simp
next
  case (2 f sf sf_v items hitdict)
  then show ?case
    by (cases sf_v) (simp_all add: leaves2_def ssf_loop_writes)
qed

lemma source_loop_writes:
  "source_loop items d = fold (\<lambda>e d. dict_set d (fst e) (snd e)) (leaves items) d"
proof (induction items d rule: source_loop.induct)
  case (1 hitdict)
  show ?case by (simp add: leaves_def)
next
  case (2 f v items hitdict)
  then show ?case
    by (cases v) (simp_all add: leaves_def leaves1_def sf_loop_writes)
qed

lemma leaves_forms:
  "(p, x) \<in> set (leaves src) \<longleftrightarrow>
     (\<exists>f. (f, x) \<in> set src \<and> \<not> is_dict x \<and> p = f) \<or>
     (\<exists>f s sf. (f, JObj s) \<in> set src \<and> (sf, x) \<in> set s \<and> \<not> is_dict x \<and> p = f @ ''.'' @ sf) \<or>
     (\<exists>f s sf ss ssf. (f, JObj s) \<in> set src \<and> (sf, JObj ss) \<in> set s \<and> (ssf, x) \<in> set ss \<and>
        p = f @ ''.'' @ sf @ ''.'' @ ssf)"
  (is "?L \<longleftrightarrow> ?A \<or> ?B \<or> ?C")
proof
  assume ?L
  then obtain f v where fv: "(f, v) \<in> set src" and in1: "(p, x) \<in> set (leaves1 (f, v))"
    by (auto simp: leaves_def)
  show "?A \<or> ?B \<or> ?C"
  proof (cases v)
    case (JObj s)
    with in1 obtain sf sv where sv: "(sf, sv) \<in> set s" and in2: "(p, x) \<in> set (leaves2 f (sf, sv))"
      by (auto simp: leaves1_def)
    show ?thesis
    proof (cases sv)
      case (JObj ss)
      with in2 obtain ssf where "(ssf, x) \<in> set ss" "p = f @ ''.'' @ sf @ ''.'' @ ssf"
        by (auto simp: leaves2_def)
      with fv sv \<open>v = JObj s\<close> JObj have ?C by blast
      then show ?thesis by blast
    qed (use in2 fv sv \<open>v = JObj s\<close> in \<open>auto simp: leaves2_def is_dict_def\<close>)
  qed (use in1 fv in \<open>auto simp: leaves1_def is_dict_def\<close>)
next
  assume "?A \<or> ?B \<or> ?C"
  then show ?L
  proof (elim disjE exE conjE)
    fix f assume "(f, x) \<in> set src" "\<not> is_dict x" "p = f"
    then show ?L
      by (cases x) (force simp: leaves_def leaves1_def is_dict_def)+
  next
    fix f s sf
    assume "(f, JObj s) \<in> set src" "(sf, x) \<in> set s" "\<not> is_dict x" "p = f @ ''.'' @ sf"
    then show ?L
      by (cases x) (force simp: leaves_def leaves1_def leaves2_def is_dict_def)+
  next
    fix f s sf ss ssf
    assume "(f, JObj s) \<in> set src" "(sf, JObj ss) \<in> set s" "(ssf, x) \<in> set ss"
      "p = f @ ''.'' @ sf @ ''.'' @ ssf"
    then show ?L
      by (force simp: leaves_def leaves1_def leaves2_def)
  qed
qed

lemma hit_row_source:
  "py_pop hit ''_source'' = Inr (JObj src) \<Longrightarrow>
   hit_row hit = Inr (fold (\<lambda>e d. dict_set d (fst e) (snd e)) (leaves src) [])"
  by (simp add: hit_row_def py_items_def source_loop_writes)

lemma leaves_flat:
  "list_all (\<lambda>e. \<not> is_dict (snd e)) src \<Longrightarrow> leaves src = src"
proof (induction src)
  case Nil
  show ?case by (simp add: leaves_def)
next
  case (Cons e src)
  then have "leaves1 e = [e]"
    by (cases "snd e") (simp_all add: leaves1_def is_dict_def)
  with Cons show ?case by (simp add: leaves_def)
qed

text \<open>
  C6. For every hit whose \<^verbatim>\<open>_source\<close> is a dictionary, the row of the hit holds only
  leaves of three kinds: a top-level value that is no dictionary at its key, a value
  one level down that is no dictionary at \<^verbatim>\<open>f.sf\<close>, and a value two levels down,
  whatever it is, at \<^verbatim>\<open>f.sf.ssf\<close>. Every path of a value two levels down is a key
  of the row; the keys of the row are the paths of these leaves; and where no two leaves
  share a path the row is the list of the leaves, each value as it was in the source.
\<close>
theorem hit_flattens_two_levels:
  assumes "py_pop hit ''_source'' = Inr (JObj src)"
  shows "\<exists>hitdict. hit_row hit = Inr hitdict \<and>
     (\<forall>p x. (p, x) \<in> set hitdict \<longrightarrow>
        (\<exists>f. (f, x) \<in> set src \<and> \<not> is_dict x \<and> p = f) \<or>
        (\<exists>f s sf. (f, JObj s) \<in> set src \<and> (sf, x) \<in> set s \<and> \<not> is_dict x \<and>
           p = f @ ''.'' @ sf) \<or>
        (\<exists>f s sf ss ssf. (f, JObj s) \<in> set src \<and> (sf, JObj ss) \<in> set s \<and>
           (ssf, x) \<in> set ss \<and> p = f @ ''.'' @ sf @ ''.'' @ ssf)) \<and>
     (\<forall>f s sf ss ssf x. (f, JObj s) \<in> set src \<and> (sf, JObj ss) \<in> set s \<and> (ssf, x) \<in> set ss \<longrightarrow>
        f @ ''.'' @ sf @ ''.'' @ ssf \<in> fst ` set hitdict) \<and>
     fst ` set hitdict = fst ` set (leaves src) \<and>
     (distinct (map fst (leaves src)) \<longrightarrow> hitdict = leaves src)"
proof -
  let ?d = "fold (\<lambda>e d. dict_set d (fst e) (snd e)) (leaves src) []"
  have row: "hit_row hit = Inr ?d"
    using assms by (rule hit_row_source)
  have sound: "set ?d \<subseteq> set (leaves src)"
    using writes_subset [of "leaves src" "[]"] by simp
  have keys: "fst ` set ?d = fst ` set (leaves src)"
    by (simp add: writes_keys)
  have 1: "\<forall>p x. (p, x) \<in> set ?d \<longrightarrow>
        (\<exists>f. (f, x) \<in> set src \<and> \<not> is_dict x \<and> p = f) \<or>
        (\<exists>f s sf. (f, JObj s) \<in> set src \<and> (sf, x) \<in> set s \<and> \<not> is_dict x \<and>
           p = f @ ''.'' @ sf) \<or>
        (\<exists>f s sf ss ssf. (f, JObj s) \<in> set src \<and> (sf, JObj ss) \<in> set s \<and>
           (ssf, x) \<in> set ss \<and> p = f @ ''.'' @ sf @ ''.'' @ ssf)"
  proof (intro allI impI)
    fix p x
    assume "(p, x) \<in> set ?d"
    with sound have "(p, x) \<in> set (leaves src)" by blast
    then show "(\<exists>f. (f, x) \<in> set src \<and> \<not> is_dict x \<and> p = f) \<or>
        (\<exists>f s sf. (f, JObj s) \<in> set src \<and> (sf, x) \<in> set s \<and> \<not> is_dict x \<and>
           p = f @ ''.'' @ sf) \<or>
        (\<exists>f s sf ss ssf. (f, JObj s) \<in> set src \<and> (sf, JObj ss) \<in> set s \<and>
           (ssf, x) \<in> set ss \<and> p = f @ ''.'' @ sf @ ''.'' @ ssf)"
      by (simp only: leaves_forms)
  qed
  have 2: "\<forall>f s sf ss ssf x. (f, JObj s) \<in> set src \<and> (sf, JObj ss) \<in> set s \<and> (ssf, x) \<in> set ss \<longrightarrow>
        f @ ''.'' @ sf @ ''.'' @ ssf \<in> fst ` set ?d"
  proof (intro allI impI)
    fix f s sf ss ssf x
    assume a: "(f, JObj s) \<in> set src \<and> (sf, JObj ss) \<in> set s \<and> (ssf, x) \<in> set ss"
    then have "(f @ ''.'' @ sf @ ''.'' @ ssf, x) \<in> set (leaves src)"
      unfolding leaves_forms by blast
    then have "f @ ''.'' @ sf @ ''.'' @ ssf \<in> fst ` set (leaves src)"
      by force
    with keys show "f @ ''.'' @ sf @ ''.'' @ ssf \<in> fst ` set ?d"
      by simp
  qed
  have 3: "distinct (map fst (leaves src)) \<longrightarrow> ?d = leaves src"
    using writes_distinct [of "[]" "leaves src"] by simp
  show ?thesis
    by (intro exI [of _ ?d] conjI row 1 2 keys 3)
qed

text \<open>A source nested four levels deep: the third level is kept as it is.\<close>
theorem hit_flattens_two_levels_witness:
  "py_pop (JObj [(''_id'', JStr ''1''),
       (''_source'', JObj [(''a'', JObj [(''b'', JObj [(''c'', JObj [(''d'', JInt 1)])])]),
                           (''e'', JInt 2)])]) ''_source''
     = Inr (JObj [(''a'', JObj [(''b'', JObj [(''c'', JObj [(''d'', JInt 1)])])]), (''e'', JInt 2)]) \<and>
   hit_row (JObj [(''_id'', JStr ''1''),
       (''_source'', JObj [(''a'', JObj [(''b'', JObj [(''c'', JObj [(''d'', JInt 1)])])]),
                           (''e'', JInt 2)])])
     = Inr [(''a.b.c'', JObj [(''d'', JInt 1)]), (''e'', JInt 2)]"
proof -
  let ?src = "[(''a'', JObj [(''b'', JObj [(''c'', JObj [(''d'', JInt 1)])])]), (''e'', JInt 2)]"
  let ?hit = "JObj [(''_id'', JStr ''1''), (''_source'', JObj ?src)]"
  have pop: "py_pop ?hit ''_source'' = Inr (JObj ?src)"
    by (simp add: py_pop_def)
  have lv: "leaves ?src = [(''a.b.c'', JObj [(''d'', JInt 1)]), (''e'', JInt 2)]"
    by (simp add: leaves_def leaves1_def leaves2_def)
  have "\<exists>hitdict. hit_row ?hit = Inr hitdict \<and>
          (distinct (map fst (leaves ?src)) \<longrightarrow> hitdict = leaves ?src)"
    using hit_flattens_two_levels [OF pop]
    apply (elim exE conjE)
    apply (rule exI)
    apply (rule conjI)
     apply assumption
    apply assumption
    done
  then have "hit_row ?hit = Inr [(''a.b.c'', JObj [(''d'', JInt 1)]), (''e'', JInt 2)]"
    unfolding lv by auto
  with pop show ?thesis
    by (intro conjI)
qed

text \<open>
  C8. For every hit whose \<^verbatim>\<open>_source\<close> has no dictionary among its values, the row
  of the hit has the keys of the source unchanged (it is the source). A source with one
  nested field \<^verbatim>\<open>{a: {b: v}}\<close>, where \<open>v\<close> is no dictionary, gives the row
  \<^verbatim>\<open>{a.b: v}\<close>; so \<^verbatim>\<open>{"a": {"b": 1}}\<close> gives \<^verbatim>\<open>{"a.b": 1}\<close>.
\<close>
theorem hit_without_nesting:
  "(py_pop hit ''_source'' = Inr (JObj src) \<and> wf_dict src \<and>
      list_all (\<lambda>e. \<not> is_dict (snd e)) src \<longrightarrow>
      (\<exists>hitdict. hit_row hit = Inr hitdict \<and> map fst hitdict = map fst src \<and> hitdict = src)) \<and>
   (\<not> is_dict v \<longrightarrow>
      hit_row (JObj [(''_source'', JObj [(a, JObj [(b, v)])])]) = Inr [(a @ ''.'' @ b, v)]) \<and>
   hit_row (JObj [(''_source'', JObj [(''a'', JObj [(''b'', JInt 1)])])]) = Inr [(''a.b'', JInt 1)]"
proof (intro conjI impI)
  assume a: "py_pop hit ''_source'' = Inr (JObj src) \<and> wf_dict src \<and>
      list_all (\<lambda>e. \<not> is_dict (snd e)) src"
  then have lv: "leaves src = src"
    by (simp add: leaves_flat)
  have "fold (\<lambda>e d. dict_set d (fst e) (snd e)) (leaves src) [] = leaves src"
    using a writes_distinct [of "[]" "leaves src"] by (simp add: lv wf_dict_def)
  with a lv show "\<exists>hitdict. hit_row hit = Inr hitdict \<and> map fst hitdict = map fst src \<and> hitdict = src"
    by (simp add: hit_row_source)
next
  assume "\<not> is_dict v"
  then show "hit_row (JObj [(''_source'', JObj [(a, JObj [(b, v)])])]) = Inr [(a @ ''.'' @ b, v)]"
    by (cases v) (simp_all add: hit_row_def py_pop_def py_items_def is_dict_def)
next
  show "hit_row (JObj [(''_source'', JObj [(''a'', JObj [(''b'', JInt 1)])])]) = Inr [(''a.b'', JInt 1)]"
    by (simp add: hit_row_def py_pop_def py_items_def)
qed

text \<open>A flat source, and the first hit of the spec's end-to-end scenario.\<close>
theorem hit_without_nesting_witness:
  "hit_row (JObj [(''_index'', JStr ''idx''),
                  (''_source'', JObj [(''ts'', JStr ''2020''), (''n'', JInt 3), (''tags'', JArr [])])])
     = Inr [(''ts'', JStr ''2020''), (''n'', JInt 3), (''tags'', JArr [])] \<and>
   hit_row (JObj [(''_source'', JObj [(''user'', JObj [(''name'', JStr ''A'')])])])
     = Inr [(''user.name'', JStr ''A'')]"
proof -
  let ?src = "[(''ts'', JStr ''2020''), (''n'', JInt 3), (''tags'', JArr [])]"
  let ?hit = "JObj [(''_index'', JStr ''idx''), (''_source'', JObj ?src)]"
  have h: "py_pop ?hit ''_source'' = Inr (JObj ?src) \<and> wf_dict ?src \<and>
           list_all (\<lambda>e. \<not> is_dict (snd e)) ?src"
    by (simp add: py_pop_def wf_dict_def is_dict_def)
  have n: "\<not> is_dict (JStr ''A'')"
    by (simp add: is_dict_def)
  from hit_without_nesting [of ?hit ?src] h have 1: "hit_row ?hit = Inr ?src"
    by blast
  from hit_without_nesting [of _ _ "JStr ''A''" "''user''" "''name''"] n
  have 2: "hit_row (JObj [(''_source'', JObj [(''user'', JObj [(''name'', JStr ''A'')])])])
     = Inr [(''user'' @ ''.'' @ ''name'', JStr ''A'')]"
    by blast
  from 1 2 show ?thesis by simp
qed

lemma hits_loop_rows:
  "\<forall>x\<in>set hits. \<not> isl (hit_row x) \<Longrightarrow>
   \<exists>t. hits_loop hits df = Inr t \<and> map Inr (rows t) = map Inr (rows df) @ map hit_row hits \<and>
        (hits = [] \<longrightarrow> t = df)"
proof (induction hits arbitrary: df)
  case Nil
  show ?case by simp
next
  case (Cons hit hits)
  then obtain d where d: "hit_row hit = Inr d"
    by (cases "hit_row hit") auto
  from Cons obtain t where "hits_loop hits (df_append df d) = Inr t"
    "map Inr (rows t) = map Inr (rows (df_append df d)) @ map hit_row hits"
    by fastforce
  then show ?case
    by (simp add: d df_append_def)
qed

text \<open>
  C3. For every search response whose \<^verbatim>\<open>hits.hits\<close> is a list of hits that each have
  a row, \<^verbatim>\<open>simple_query_search\<close> returns a table with one row per hit: as many rows
  as hits, the row of each hit at the position of the hit, none dropped and none merged
  with an equal one. An empty list of hits gives a table with no row and no column.
\<close>
theorem projection_keeps_hits:
  assumes "py_pop requestjson ''hits'' = Inr h"
    and "py_pop h ''hits'' = Inr (JArr hits)"
    and "\<forall>x\<in>set hits. \<not> isl (hit_row x)"
  shows "\<exists>t. simple_query_search requestjson = Inr t \<and>
           length (rows t) = length hits \<and>
           map Inr (rows t) = map hit_row hits \<and>
           (hits = [] \<longrightarrow> rows t = [] \<and> columns t = [])"
proof -
  from hits_loop_rows [OF assms(3), of empty_frame] obtain t where
    t: "hits_loop hits empty_frame = Inr t" "map Inr (rows t) = map hit_row hits"
      "hits = [] \<longrightarrow> t = empty_frame"
    by (auto simp: empty_frame_def)
  have "length (map Inr (rows t) :: (exn + dict) list) = length (map hit_row hits)"
    using t(2) by simp
  then have "length (rows t) = length hits"
    by simp
  with t assms(1,2) show ?thesis
    by (auto simp: simple_query_search_def py_iter_def empty_frame_def)
qed

text \<open>The two hits of the spec's end-to-end scenario.\<close>
theorem projection_keeps_hits_witness:
  "\<exists>t. simple_query_search (JObj [(''took'', JInt 3), (''hits'', JObj [(''total'', JInt 2),
          (''hits'', JArr [JObj [(''_source'', JObj [(''user'', JObj [(''name'', JStr ''A'')])])],
                           JObj [(''_source'', JObj [(''ts'', JStr ''2020'')])]])])]) = Inr t \<and>
      length (rows t) = 2 \<and>
      rows t = [[(''user.name'', JStr ''A'')], [(''ts'', JStr ''2020'')]]"
proof -
  let ?hits = "[JObj [(''_source'', JObj [(''user'', JObj [(''name'', JStr ''A'')])])],
                JObj [(''_source'', JObj [(''ts'', JStr ''2020'')])]]"
  let ?h = "JObj [(''total'', JInt 2), (''hits'', JArr ?hits)]"
  let ?r = "JObj [(''took'', JInt 3), (''hits'', ?h)]"
  have 1: "py_pop ?r ''hits'' = Inr ?h" by (simp add: py_pop_def)
  have 2: "py_pop ?h ''hits'' = Inr (JArr ?hits)" by (simp add: py_pop_def)
  have r1: "hit_row (JObj [(''_source'', JObj [(''user'', JObj [(''name'', JStr ''A'')])])])
              = Inr [(''user.name'', JStr ''A'')]"
    by (simp add: hit_row_def py_pop_def py_items_def)
  have r2: "hit_row (JObj [(''_source'', JObj [(''ts'', JStr ''2020'')])])
              = Inr [(''ts'', JStr ''2020'')]"
    by (simp add: hit_row_def py_pop_def py_items_def)
  have 3: "\<forall>x\<in>set ?hits. \<not> isl (hit_row x)" by (simp add: r1 r2)
  from projection_keeps_hits [OF 1 2 3] obtain t where
    t: "simple_query_search ?r = Inr t" "length (rows t) = length ?hits"
       "map Inr (rows t) = map hit_row ?hits"
    by blast
  from t(3) have "map Inr (rows t) = (map Inr [[(''user.name'', JStr ''A'')], [(''ts'', JStr ''2020'')]] :: (exn + dict) list)"
    by (simp add: r1 r2)
  then have "rows t = [[(''user.name'', JStr ''A'')], [(''ts'', JStr ''2020'')]]"
    by (simp only: inj_map_eq_map [OF inj_Inr])
  with t show ?thesis by simp
qed

section \<open>Sorting: permutation, stability, missing cells\<close>

declare msort_key.simps [simp del]


lemma set_merge_key: "set (merge_key f xs ys) = set xs \<union> set ys"
  by (induction f xs ys rule: merge_key.induct) auto

lemma sorted_merge_key:
  "sorted (map f xs) \<Longrightarrow> sorted (map f ys) \<Longrightarrow> sorted (map f (merge_key f xs ys))"
  by (induction f xs ys rule: merge_key.induct) (auto simp: set_merge_key)



lemma sorted_msort_key: "sorted (map f (msort_key f xs))"
proof (induction f xs rule: msort_key.induct)
  case (1 f xs)
  show ?case
  proof (cases "length xs \<le> 1")
    case True
    then have "msort_key f xs = xs"
      by (simp add: msort_key.simps [of f xs])
    with True show ?thesis
      by (cases xs) simp_all
  next
    case False
    with 1 show ?thesis
      by (simp add: msort_key.simps [of f xs] sorted_merge_key)
  qed
qed









text \<open>The rows with a number in the column come out in the order of the numbers.\<close>

lemma sorted_directed:
  "sorted (map f (directed True (msort_key f) xs)) \<and>
   sorted (rev (map f (directed False (msort_key f) xs)))"
  by (simp add: directed_def sorted_msort_key rev_map)

lemma sort_values_numeric_sorted:
  assumes "sort_values df col asc = Inr df'"
    and "list_all (\<lambda>r. is_numeric (cell r col)) (filter (\<lambda>r. \<not> isna (cell r col)) (rows df))"
  shows "\<exists>ps. rows df' = ps @ filter (\<lambda>r. isna (cell r col)) (rows df) \<and>
           (if asc then sorted (map (\<lambda>r. num_key (cell r col)) ps)
            else sorted (rev (map (\<lambda>r. num_key (cell r col)) ps)))"
proof (cases "length (filter (\<lambda>r. \<not> isna (cell r col)) (rows df)) \<le> 1")
  case True
  then have short: "sorted (map f (filter (\<lambda>r. \<not> isna (cell r col)) (rows df)))"
    "sorted (rev (map f (filter (\<lambda>r. \<not> isna (cell r col)) (rows df))))" for f :: "dict \<Rightarrow> int"
    by (cases "filter (\<lambda>r. \<not> isna (cell r col)) (rows df)"; simp)+
  from assms(1) True have "rows df' = filter (\<lambda>r. \<not> isna (cell r col)) (rows df) @
      filter (\<lambda>r. isna (cell r col)) (rows df)"
    by (auto simp: sort_values_def Let_def split: if_splits)
  with short show ?thesis by auto
next
  case False
  with assms have "rows df' =
      directed asc (msort_key (\<lambda>r. num_key (cell r col)))
        (filter (\<lambda>r. \<not> isna (cell r col)) (rows df)) @
      filter (\<lambda>r. isna (cell r col)) (rows df)"
    by (auto simp: sort_values_def Let_def split: if_splits)
  then show ?thesis
    using sorted_directed [of "\<lambda>r. num_key (cell r col)"] by (cases asc) auto
qed







end
